theory Spec2Isabelle
  imports Main "HOL-Library.Sublist"
begin

section \<open>The pull request store of \<open>app/src/lib/stores/pull-request-store.ts\<close>\<close>

text \<open>
  A shallow embedding of the class \<open>PullRequestStore\<close>. Every \<open>async\<close> method is run to
  completion (one refresh at a time), so a method is a function from the store's state to a
  result and the state it leaves behind. A rejected promise is the \<open>Inl\<close> of the result.

  TypeScript's postfix \<open>!\<close> is erased by the compiler: \<open>x!\<close> is \<open>x\<close> at run time, \<open>null\<close> or
  \<open>undefined\<close> included. A field that the source fills through \<open>!\<close> therefore has an
  \<open>option\<close> type here and takes the value as it comes.

  Several records of the source share field names (\<open>number\<close>, \<open>title\<close>, \<open>head\<close>, \<open>sha\<close>, ...).
  The plain names go to the models in \<open>models/pull-request\<close>; the fields of the API payloads
  carry the prefix \<open>api_\<close>, the fields of the database rows the prefix \<open>row_\<close> or \<open>status_\<close>.
\<close>

subsection \<open>Payloads of the API (\<open>lib/api\<close>)\<close>

text \<open>Modelled from the spec: the interfaces of \<open>lib/api\<close> are not under src/. The fields
  are those the store reads (\<open>pr.head.repo\<close>, \<open>pr.user.login\<close>, \<open>status.total_count\<close>, ...),
  with the remote records of the spec: number, title, createdAt, head and base with ref, sha
  and repo, and the author's login; a combined status has a state and a total count.\<close>

record IAPIRepository =
  api_name :: string
  api_owner_login :: string

record IAPIPullRequestRef =
  api_ref :: string
  api_sha :: string
  api_repo :: IAPIRepository

record IAPIPullRequest =
  api_number :: int
  api_title :: string
  api_created_at :: string
  api_user_login :: string
  api_head :: IAPIPullRequestRef
  api_base :: IAPIPullRequestRef

record IAPIRefStatus =
  api_state :: string
  api_total_count :: int

text \<open>
  The client \<open>API.fromAccount(account)\<close> is a parameter of the model: its two requests
  either fail with a message (a network, authentication or rate limit error) or deliver
  the payload. The arguments are the owner's login, the repository's name, and the state
  filter or the commit.
\<close>

record API =
  fetchPullRequests :: "string \<Rightarrow> string \<Rightarrow> string \<Rightarrow> string + IAPIPullRequest list"
  fetchCombinedRefStatus :: "string \<Rightarrow> string \<Rightarrow> string \<Rightarrow> string + IAPIRefStatus"

subsection \<open>Models (\<open>models/github-repository\<close>, \<open>models/pull-request\<close>)\<close>

text \<open>Modelled from the spec: the classes of \<open>models/\<close> are not under src/. Their fields
  follow the constructor calls of \<open>getPullRequests\<close>, in the order of the arguments, and the
  spec's PullRequest, PullRequestRef and repository identity.\<close>

record Owner =
  login :: string

record GitHubRepository =
  dbID :: "nat option"
  name :: string
  owner :: Owner
  endpoint :: string

datatype Date = Date string

record PullRequestStatus =
  state :: string
  totalCount :: int
  sha :: string

record PullRequestRef =
  ref :: string
  ref_sha :: string
  gitHubRepository :: "GitHubRepository option"

record PullRequest =
  pr_id :: "nat option"
  created :: Date
  status :: "PullRequestStatus option"
  title :: string
  number :: int
  head :: PullRequestRef
  base :: PullRequestRef
  author :: string

subsection \<open>Rows of the database (\<open>lib/databases\<close>)\<close>

text \<open>Modelled from the spec: the interfaces and the schema of \<open>lib/databases\<close> are not under
  src/. The fields of the rows are those of the object literals in \<open>writePullRequests\<close> and
  \<open>updatePullRequests\<close>; the \<open>id\<close> of a pull request row is assigned by storage, and the
  status table enforces no uniqueness on (sha, pullRequestId), as the spec has them.\<close>

record IPullRequestRef =
  row_ref :: string
  row_sha :: string
  repoId :: "nat option"

record IPullRequest =
  row_id :: "nat option"
  row_number :: int
  row_title :: string
  createdAt :: string
  row_head :: IPullRequestRef
  row_base :: IPullRequestRef
  row_author :: string

record IPullRequestStatus =
  status_state :: string
  status_totalCount :: int
  pullRequestId :: "nat option"
  status_sha :: string

text \<open>
  A Dexie table is the list of its rows in primary key order, which for an auto-incremented
  key is the order of insertion. The key generator of the pull request table is part of the
  state: IndexedDB never lowers it, not even on \<open>clear()\<close>.
\<close>

record PullRequestDatabase =
  pullRequests :: "IPullRequest list"
  nextPullRequestId :: nat
  pullRequestStatus :: "IPullRequestStatus list"

definition clear :: "PullRequestDatabase \<Rightarrow> PullRequestDatabase" where
  "clear d = d\<lparr>pullRequests := []\<rparr>"

text \<open>
  \<open>table.bulkAdd(rows)\<close> on the pull request table. The rows built by \<open>writePullRequests\<close>
  carry no \<open>id\<close>, so the key generator supplies each one.
\<close>

primrec bulkAdd :: "IPullRequest list \<Rightarrow> PullRequestDatabase \<Rightarrow> PullRequestDatabase" where
  "bulkAdd [] d = d"
| "bulkAdd (r # rs) d =
     bulkAdd rs (d\<lparr>pullRequests := pullRequests d @ [r\<lparr>row_id := Some (nextPullRequestId d)\<rparr>],
                   nextPullRequestId := Suc (nextPullRequestId d)\<rparr>)"

text \<open>
  \<open>where('base.repoId').equals(i)\<close>: the rows indexed under \<open>i\<close>, in primary key order.
  The query is only made with a number \<open>i\<close> (the caller has ruled out null and zero), so a
  row whose \<open>base.repoId\<close> is undefined, which is not in the index, is never returned.
\<close>

definition where_base_repoId_equals :: "nat option \<Rightarrow> IPullRequest list \<Rightarrow> IPullRequest list" where
  "where_base_repoId_equals i rows = filter (\<lambda>r. repoId (row_base r) = i) rows"

text \<open>
  \<open>.reverse().sortBy('number')\<close>: Dexie reads the collection backwards and sorts the array
  with a comparator that puts the larger number first; rows with equal numbers stay in the
  order they were read (a stable sort).
\<close>

definition reverse_sortBy_number :: "IPullRequest list \<Rightarrow> IPullRequest list" where
  "reverse_sortBy_number rows = sort_key (\<lambda>r. - row_number r) (rev rows)"

subsection \<open>The repositories store (\<open>lib/stores/repositories-store\<close>)\<close>

record RepositoriesStore =
  gitHubRepositories :: "GitHubRepository list"
  nextRepositoryId :: nat

definition sameRepository :: "string \<Rightarrow> IAPIRepository \<Rightarrow> GitHubRepository \<Rightarrow> bool" where
  "sameRepository ep r g \<longleftrightarrow>
     endpoint g = ep \<and> login (owner g) = api_owner_login r \<and> name g = api_name r"

text \<open>Modelled from the spec: \<open>RepositoriesStore.findOrPutGitHubRepository\<close> is not under src/.
  The spec's \<open>findOrCreate(endpoint, remoteRepoDescriptor)\<close> returns a stable local identity
  with find-or-create semantics, an idempotent upsert keyed by endpoint, owner and name.
\<close>

definition findOrPutGitHubRepository ::
  "string \<Rightarrow> IAPIRepository \<Rightarrow> RepositoriesStore \<Rightarrow> GitHubRepository \<times> RepositoriesStore" where
  "findOrPutGitHubRepository ep r st =
     (case find (sameRepository ep r) (gitHubRepositories st) of
        Some g \<Rightarrow> (g, st)
      | None \<Rightarrow>
          (let g = \<lparr>dbID = Some (nextRepositoryId st), name = api_name r,
                    owner = \<lparr>login = api_owner_login r\<rparr>, endpoint = ep\<rparr>
           in (g, st\<lparr>gitHubRepositories := gitHubRepositories st @ [g],
                     nextRepositoryId := Suc (nextRepositoryId st)\<rparr>)))"

text \<open>Modelled from the spec: \<open>RepositoriesStore.findGitHubRepositoryByID\<close> is not under src/.
  The spec's \<open>findById(localId)\<close> returns the repository identity or absent.
\<close>

definition findGitHubRepositoryByID ::
  "nat option \<Rightarrow> RepositoriesStore \<Rightarrow> GitHubRepository option" where
  "findGitHubRepositoryByID i st =
     (case i of None \<Rightarrow> None
      | Some k \<Rightarrow> find (\<lambda>g. dbID g = Some k) (gitHubRepositories st))"

subsection \<open>Errors\<close>

datatype error = PreconditionViolation string | RemoteFetchFailure string

text \<open>Modelled from the spec: \<open>fatalError\<close> of \<open>lib/fatal-error\<close> is not under src/. The spec's
  \<open>PreconditionViolation\<close> is fatal and reaches the caller, so \<open>fatalError\<close> throws and the
  \<open>return\<close> that follows each call in the source is never reached.
\<close>

definition fatalError :: "string \<Rightarrow> error + 'a" where
  "fatalError msg = Inl (PreconditionViolation msg)"

text \<open>The test \<open>!x\<close> on a \<open>number | null\<close>: null and zero are falsy.\<close>

definition falsy :: "nat option \<Rightarrow> bool" where
  "falsy x \<longleftrightarrow> x = None \<or> x = Some 0"

subsection \<open>The store\<close>

record PullRequestStore =
  db :: PullRequestDatabase
  repositoriesStore :: RepositoriesStore

text \<open>
  The query of \<open>getPullRequestStatusById\<close>:
  \<open>where('[sha+pullRequestId]').equals([sha, pullRequestId])\<close> selects the rows under the
  composite key, in primary key order; \<open>.limit(1).first()\<close> takes the first of them.
\<close>

definition status_key_equals :: "string \<Rightarrow> nat option \<Rightarrow> IPullRequestStatus \<Rightarrow> bool" where
  "status_key_equals s i r \<longleftrightarrow> status_sha r = s \<and> pullRequestId r = i"

text \<open>\<open>new PullRequestStatus(result.state, result.totalCount, result.sha)\<close>\<close>

definition newPullRequestStatus :: "IPullRequestStatus \<Rightarrow> PullRequestStatus" where
  "newPullRequestStatus result =
     \<lparr>state = status_state result, totalCount = status_totalCount result,
      sha = status_sha result\<rparr>"

definition getPullRequestStatusById ::
  "string \<Rightarrow> nat option \<Rightarrow> PullRequestStore \<Rightarrow> PullRequestStatus option" where
  "getPullRequestStatusById s i st =
     (case find (status_key_equals s i) (pullRequestStatus (db st)) of
        None \<Rightarrow> None
      | Some result \<Rightarrow> Some (newPullRequestStatus result))"

text \<open>The body of the loop of \<open>getPullRequests\<close>: one stored row to one \<open>PullRequest\<close>.\<close>

definition buildPR :: "PullRequestStore \<Rightarrow> IPullRequest \<Rightarrow> PullRequest" where
  "buildPR st pr =
     (let head_repo = findGitHubRepositoryByID (repoId (row_head pr)) (repositoriesStore st);
          base_repo = findGitHubRepositoryByID (repoId (row_base pr)) (repositoriesStore st);
          prStatus = getPullRequestStatusById (row_sha (row_head pr)) (row_id pr) st
      in \<lparr>pr_id = row_id pr, created = Date (createdAt pr), status = prStatus,
           title = row_title pr, number = row_number pr,
           head = \<lparr>ref = row_ref (row_head pr), ref_sha = row_sha (row_head pr),
                   gitHubRepository = head_repo\<rparr>,
           base = \<lparr>ref = row_ref (row_base pr), ref_sha = row_sha (row_base pr),
                   gitHubRepository = base_repo\<rparr>,
           author = row_author pr\<rparr>)"

definition getPullRequests :: "GitHubRepository \<Rightarrow> PullRequestStore \<Rightarrow> error + PullRequest list" where
  "getPullRequests repository st =
     (if falsy (dbID repository)
      then fatalError ''Cannot get pull requests for a repository that hasn't been inserted into the database!''
      else Inr (map (buildPR st)
             (reverse_sortBy_number
               (where_base_repoId_equals (dbID repository) (pullRequests (db st))))))"

text \<open>The first loop of \<open>writePullRequests\<close>, which resolves (or creates) both repositories of
  every fetched pull request and builds the row to insert.\<close>

fun insertablePRs ::
  "string \<Rightarrow> IAPIPullRequest list \<Rightarrow> RepositoriesStore \<Rightarrow> IPullRequest list \<times> RepositoriesStore" where
  "insertablePRs ep [] rs = ([], rs)"
| "insertablePRs ep (pr # prs) rs =
     (let (headRepo, rs1) = findOrPutGitHubRepository ep (api_repo (api_head pr)) rs;
          (baseRepo, rs2) = findOrPutGitHubRepository ep (api_repo (api_base pr)) rs1;
          row = \<lparr>row_id = None, row_number = api_number pr, row_title = api_title pr,
                 createdAt = api_created_at pr,
                 row_head = \<lparr>row_ref = api_ref (api_head pr), row_sha = api_sha (api_head pr),
                             repoId = dbID headRepo\<rparr>,
                 row_base = \<lparr>row_ref = api_ref (api_base pr), row_sha = api_sha (api_base pr),
                             repoId = dbID baseRepo\<rparr>,
                 row_author = api_user_login pr\<rparr>;
          (rows, rs3) = insertablePRs ep prs rs2
      in (row # rows, rs3))"

definition writePullRequests ::
  "IAPIPullRequest list \<Rightarrow> GitHubRepository \<Rightarrow> PullRequestStore \<Rightarrow> (error + unit) \<times> PullRequestStore" where
  "writePullRequests prs repository st =
     (if falsy (dbID repository)
      then (fatalError ''Cannot store pull requests for a repository that hasn't been inserted into the database!'', st)
      else (let (rows, rs) = insertablePRs (endpoint repository) prs (repositoriesStore st)
            in (Inr (), \<lparr>db = bulkAdd rows (clear (db st)), repositoriesStore = rs\<rparr>)))"

definition writePullRequestStatus :: "IPullRequestStatus list \<Rightarrow> PullRequestStore \<Rightarrow> PullRequestStore" where
  "writePullRequestStatus statuses st =
     st\<lparr>db := (db st)\<lparr>pullRequestStatus := pullRequestStatus (db st) @ statuses\<rparr>\<rparr>"

text \<open>The loop of \<open>updatePullRequests\<close> that fetches one combined status per pull request
  and buffers the rows; the first failed request ends it.\<close>

fun fetchStatuses ::
  "API \<Rightarrow> GitHubRepository \<Rightarrow> PullRequest list \<Rightarrow> string + IPullRequestStatus list" where
  "fetchStatuses api repository [] = Inr []"
| "fetchStatuses api repository (pr # prs) =
     (case fetchCombinedRefStatus api (login (owner repository)) (name repository) (ref_sha (head pr)) of
        Inl msg \<Rightarrow> Inl msg
      | Inr st \<Rightarrow>
          (case fetchStatuses api repository prs of
             Inl msg \<Rightarrow> Inl msg
           | Inr rest \<Rightarrow>
               Inr (\<lparr>status_state = api_state st, status_totalCount = api_total_count st,
                     pullRequestId = pr_id pr, status_sha = ref_sha (head pr)\<rparr> # rest)))"

definition updatePullRequests ::
  "GitHubRepository \<Rightarrow> API \<Rightarrow> PullRequestStore \<Rightarrow> (error + PullRequest list) \<times> PullRequestStore" where
  "updatePullRequests repository api st =
     (case fetchPullRequests api (login (owner repository)) (name repository) ''open'' of
        Inl msg \<Rightarrow> (Inl (RemoteFetchFailure msg), st)
      | Inr prsFromAPI \<Rightarrow>
          (case writePullRequests prsFromAPI repository st of
             (Inl e, st1) \<Rightarrow> (Inl e, st1)
           | (Inr u, st1) \<Rightarrow>
               (case getPullRequests repository st1 of
                  Inl e \<Rightarrow> (Inl e, st1)
                | Inr prs \<Rightarrow>
                    (case fetchStatuses api repository prs of
                       Inl msg \<Rightarrow> (Inl (RemoteFetchFailure msg), st1)
                     | Inr pullRequestsStatuses \<Rightarrow>
                         (let st2 = writePullRequestStatus pullRequestsStatuses st1
                          in (getPullRequests repository st2, st2))))))"

subsection \<open>Concrete repositories, payloads and stores\<close>

definition repoA :: GitHubRepository where
  "repoA = \<lparr>dbID = Some 1, name = ''desktop'', owner = \<lparr>login = ''desktop''\<rparr>,
            endpoint = ''https://api.github.com''\<rparr>"

definition repoB :: GitHubRepository where
  "repoB = \<lparr>dbID = Some 2, name = ''dugite'', owner = \<lparr>login = ''desktop''\<rparr>,
            endpoint = ''https://api.github.com''\<rparr>"

definition repoNoId :: GitHubRepository where
  "repoNoId = \<lparr>dbID = None, name = ''desktop'', owner = \<lparr>login = ''desktop''\<rparr>,
               endpoint = ''https://api.github.com''\<rparr>"

definition apiRepoA :: IAPIRepository where
  "apiRepoA = \<lparr>api_name = ''desktop'', api_owner_login = ''desktop''\<rparr>"

definition apiFork :: IAPIRepository where
  "apiFork = \<lparr>api_name = ''desktop'', api_owner_login = ''fork''\<rparr>"

definition apiPR :: "int \<Rightarrow> string \<Rightarrow> string \<Rightarrow> IAPIPullRequest" where
  "apiPR n t s =
     \<lparr>api_number = n, api_title = t, api_created_at = ''2017-08-01'', api_user_login = ''alice'',
      api_head = \<lparr>api_ref = ''feature'', api_sha = s, api_repo = apiFork\<rparr>,
      api_base = \<lparr>api_ref = ''master'', api_sha = ''b0'', api_repo = apiRepoA\<rparr>\<rparr>"

definition api_ok :: API where
  "api_ok =
     \<lparr>fetchPullRequests = (\<lambda>ow n s. Inr [apiPR 3 ''three'' ''s3'', apiPR 5 ''five'' ''s5'']),
      fetchCombinedRefStatus = (\<lambda>ow n s. Inr \<lparr>api_state = ''success'', api_total_count = 2\<rparr>)\<rparr>"

definition api_none :: API where
  "api_none =
     \<lparr>fetchPullRequests = (\<lambda>ow n s. Inr []),
      fetchCombinedRefStatus = (\<lambda>ow n s. Inr \<lparr>api_state = ''success'', api_total_count = 2\<rparr>)\<rparr>"

definition api_down :: API where
  "api_down =
     \<lparr>fetchPullRequests = (\<lambda>ow n s. Inl ''rate limit exceeded''),
      fetchCombinedRefStatus = (\<lambda>ow n s. Inl ''rate limit exceeded'')\<rparr>"

definition api_status_down :: API where
  "api_status_down =
     \<lparr>fetchPullRequests = (\<lambda>ow n s. Inr [apiPR 3 ''three'' ''s3'', apiPR 5 ''five'' ''s5'']),
      fetchCombinedRefStatus =
        (\<lambda>ow n s. if s = ''s3'' then Inl ''timeout''
                   else Inr \<lparr>api_state = ''success'', api_total_count = 2\<rparr>)\<rparr>"

definition repos0 :: RepositoriesStore where
  "repos0 = \<lparr>gitHubRepositories = [repoA, repoB], nextRepositoryId = 3\<rparr>"

definition store0 :: PullRequestStore where
  "store0 = \<lparr>db = \<lparr>pullRequests = [], nextPullRequestId = 1, pullRequestStatus = []\<rparr>,
             repositoriesStore = repos0\<rparr>"

definition storedRow :: "nat \<Rightarrow> int \<Rightarrow> string \<Rightarrow> nat \<Rightarrow> nat \<Rightarrow> IPullRequest" where
  "storedRow k n s h b =
     \<lparr>row_id = Some k, row_number = n, row_title = ''a title'', createdAt = ''2017-08-01'',
      row_head = \<lparr>row_ref = ''feature'', row_sha = s, repoId = Some h\<rparr>,
      row_base = \<lparr>row_ref = ''master'', row_sha = ''b0'', repoId = Some b\<rparr>,
      row_author = ''alice''\<rparr>"

definition store_B :: PullRequestStore where
  "store_B = \<lparr>db = \<lparr>pullRequests = [storedRow 1 7 ''s7'' 2 2], nextPullRequestId = 2,
                     pullRequestStatus = []\<rparr>,
              repositoriesStore = repos0\<rparr>"

definition store_A :: PullRequestStore where
  "store_A = \<lparr>db = \<lparr>pullRequests = [storedRow 1 3 ''s3'' 1 1, storedRow 2 5 ''s5'' 1 1],
                     nextPullRequestId = 3,
                     pullRequestStatus =
                       [\<lparr>status_state = ''pending'', status_totalCount = 1,
                         pullRequestId = Some 2, status_sha = ''s5''\<rparr>,
                        \<lparr>status_state = ''success'', status_totalCount = 2,
                         pullRequestId = Some 2, status_sha = ''s5''\<rparr>]\<rparr>,
              repositoriesStore = repos0\<rparr>"

definition store_dangling :: PullRequestStore where
  "store_dangling = \<lparr>db = \<lparr>pullRequests = [storedRow 1 3 ''s3'' 9 1], nextPullRequestId = 2,
                            pullRequestStatus = []\<rparr>,
                     repositoriesStore = repos0\<rparr>"




definition api_twice :: API where
  "api_twice =
     \<lparr>fetchPullRequests =
        (\<lambda>ow n s. Inr [apiPR 3 ''three'' ''s3'', apiPR 3 ''three'' ''s3'', apiPR 4 ''four'' ''s4'']),
      fetchCombinedRefStatus = (\<lambda>ow n s. Inr \<lparr>api_state = ''success'', api_total_count = 2\<rparr>)\<rparr>"

definition store_twice :: PullRequestStore where
  "store_twice = \<lparr>db = \<lparr>pullRequests = [storedRow 1 3 ''s3'' 1 1, storedRow 2 3 ''s3'' 1 1,
                                           storedRow 3 4 ''s4'' 1 1],
                         nextPullRequestId = 4, pullRequestStatus = []\<rparr>,
                  repositoriesStore = repos0\<rparr>"

section \<open>Properties\<close>

subsection \<open>Auxiliary facts about the tables\<close>

lemma find_first_of_filter:
  "find P xs = (case filter P xs of [] \<Rightarrow> None | x # later \<Rightarrow> Some x)"
  by (induction xs) simp_all

lemma descending_distinct_strict:
  fixes xs :: "int list"
  shows "sorted_wrt (\<lambda>a b. b \<le> a) xs \<Longrightarrow> distinct xs \<Longrightarrow> sorted_wrt (\<lambda>a b. b < a) xs"
  by (induction xs) (auto simp: order.strict_iff_order)

lemma reverse_sortBy_number_descending:
  "sorted_wrt (\<lambda>a b. b \<le> a) (map row_number (reverse_sortBy_number rows))"
proof -
  have "sorted (map (\<lambda>r. - row_number r) (reverse_sortBy_number rows))"
    unfolding reverse_sortBy_number_def by (rule sorted_sort_key)
  then show ?thesis
    by (simp add: sorted_map sorted_wrt_map)
qed

lemma set_reverse_sortBy_number [simp]: "set (reverse_sortBy_number rows) = set rows"
  by (simp add: reverse_sortBy_number_def)

lemma length_reverse_sortBy_number [simp]: "length (reverse_sortBy_number rows) = length rows"
  by (simp add: reverse_sortBy_number_def)

lemma distinct_numbers_reverse_sortBy_number:
  "distinct (map row_number (reverse_sortBy_number rows)) = distinct (map row_number rows)"
  by (simp add: reverse_sortBy_number_def distinct_map)

lemma getPullRequests_Inr:
  "\<not> falsy (dbID repository) \<Longrightarrow>
   getPullRequests repository st =
     Inr (map (buildPR st)
       (reverse_sortBy_number (where_base_repoId_equals (dbID repository) (pullRequests (db st)))))"
  by (simp add: getPullRequests_def)

lemma buildPR_fields [simp]:
  "pr_id (buildPR st r) = row_id r"
  "number (buildPR st r) = row_number r"
  "title (buildPR st r) = row_title r"
  "author (buildPR st r) = row_author r"
  "created (buildPR st r) = Date (createdAt r)"
  "ref (head (buildPR st r)) = row_ref (row_head r)"
  "ref_sha (head (buildPR st r)) = row_sha (row_head r)"
  "ref (base (buildPR st r)) = row_ref (row_base r)"
  "ref_sha (base (buildPR st r)) = row_sha (row_base r)"
  "status (buildPR st r) = getPullRequestStatusById (row_sha (row_head r)) (row_id r) st"
  "gitHubRepository (head (buildPR st r)) = findGitHubRepositoryByID (repoId (row_head r)) (repositoriesStore st)"
  "gitHubRepository (base (buildPR st r)) = findGitHubRepositoryByID (repoId (row_base r)) (repositoriesStore st)"
  by (simp_all add: buildPR_def)

lemma updatePullRequests_returns_view:
  "updatePullRequests repository api st = (Inr prs, st') \<Longrightarrow> getPullRequests repository st' = Inr prs"
  by (auto simp: updatePullRequests_def Let_def split: sum.splits prod.splits)

lemma pullRequestStatus_bulkAdd [simp]:
  "pullRequestStatus (bulkAdd rows d) = pullRequestStatus d"
  by (induction rows arbitrary: d) simp_all

lemma pullRequestStatus_writePullRequests:
  "writePullRequests prs repository st = (res, st1) \<Longrightarrow>
   pullRequestStatus (db st1) = pullRequestStatus (db st)"
  by (auto simp: writePullRequests_def clear_def split: if_splits prod.splits)

lemma fetchStatuses_Inl_iff:
  "(\<exists>msg. fetchStatuses api repository prs = Inl msg) \<longleftrightarrow>
   (\<exists>p \<in> set prs. \<exists>msg. fetchCombinedRefStatus api (login (owner repository)) (name repository)
        (ref_sha (head p)) = Inl msg)"
  by (induction prs) (auto split: sum.splits)

lemma fetchStatuses_Inr:
  "fetchStatuses api repository prs = Inr batch \<Longrightarrow>
   map pullRequestId batch = map pr_id prs \<and> map status_sha batch = map (\<lambda>p. ref_sha (head p)) prs"
  by (induction prs arbitrary: batch) (auto split: sum.splits)

subsection \<open>Auxiliary facts about the repositories store\<close>

lemma find_append_Some: "find P xs = Some g \<Longrightarrow> find P (xs @ ys) = Some g"
  by (induction xs) (auto split: if_splits)

lemma find_append_None: "find P xs = None \<Longrightarrow> find P (xs @ ys) = find P ys"
  by (induction xs) (auto split: if_splits)

lemma find_prefix: "prefix xs ys \<Longrightarrow> find P xs = Some g \<Longrightarrow> find P ys = Some g"
  by (auto simp: prefix_def find_append_Some)

lemma findOrPutGitHubRepository_found:
  "find (sameRepository ep r) (gitHubRepositories rs) = Some g \<Longrightarrow>
   findOrPutGitHubRepository ep r rs = (g, rs)"
  by (simp add: findOrPutGitHubRepository_def)

lemma findOrPutGitHubRepository_result:
  assumes "findOrPutGitHubRepository ep r rs = (g, rs')"
  shows "prefix (gitHubRepositories rs) (gitHubRepositories rs')"
    and "find (sameRepository ep r) (gitHubRepositories rs') = Some g"
  using assms
  by (auto simp: findOrPutGitHubRepository_def Let_def find_append_None sameRepository_def
      split: option.splits)

lemma insertablePRs_prefix:
  "insertablePRs ep prs rs = (rows, rs') \<Longrightarrow>
   prefix (gitHubRepositories rs) (gitHubRepositories rs')"
proof (induction prs arbitrary: rs rows rs')
  case Nil
  then show ?case by simp
next
  case (Cons pr prs)
  obtain headRepo rs1 where h: "findOrPutGitHubRepository ep (api_repo (api_head pr)) rs = (headRepo, rs1)"
    by (cases "findOrPutGitHubRepository ep (api_repo (api_head pr)) rs")
  obtain baseRepo rs2 where b: "findOrPutGitHubRepository ep (api_repo (api_base pr)) rs1 = (baseRepo, rs2)"
    by (cases "findOrPutGitHubRepository ep (api_repo (api_base pr)) rs1")
  obtain rest rs3 where r: "insertablePRs ep prs rs2 = (rest, rs3)"
    by (cases "insertablePRs ep prs rs2")
  from Cons.prems h b r have "rs' = rs3"
    by (simp add: Let_def)
  moreover have "prefix (gitHubRepositories rs) (gitHubRepositories rs1)"
    using h by (rule findOrPutGitHubRepository_result)
  moreover have "prefix (gitHubRepositories rs1) (gitHubRepositories rs2)"
    using b by (rule findOrPutGitHubRepository_result)
  moreover have "prefix (gitHubRepositories rs2) (gitHubRepositories rs3)"
    using r by (rule Cons.IH)
  ultimately show ?case
    by (metis prefix_order.trans)
qed

text \<open>Once the repositories of the fetched pull requests are in the store, building the
  rows again gives the same rows and leaves the store alone.\<close>

lemma insertablePRs_again:
  "insertablePRs ep prs rs = (rows, rs') \<Longrightarrow>
   prefix (gitHubRepositories rs') (gitHubRepositories rs'') \<Longrightarrow>
   insertablePRs ep prs rs'' = (rows, rs'')"
proof (induction prs arbitrary: rs rows rs')
  case Nil
  then show ?case by simp
next
  case (Cons pr prs)
  obtain headRepo rs1 where h: "findOrPutGitHubRepository ep (api_repo (api_head pr)) rs = (headRepo, rs1)"
    by (cases "findOrPutGitHubRepository ep (api_repo (api_head pr)) rs")
  obtain baseRepo rs2 where b: "findOrPutGitHubRepository ep (api_repo (api_base pr)) rs1 = (baseRepo, rs2)"
    by (cases "findOrPutGitHubRepository ep (api_repo (api_base pr)) rs1")
  obtain rest rs3 where r: "insertablePRs ep prs rs2 = (rest, rs3)"
    by (cases "insertablePRs ep prs rs2")
  from Cons.prems(1) h b r have out: "rs' = rs3"
    and rows: "rows = fst (insertablePRs ep (pr # prs) rs)"
    by (simp_all add: Let_def)
  have p12: "prefix (gitHubRepositories rs1) (gitHubRepositories rs2)"
    using b by (rule findOrPutGitHubRepository_result)
  have p23: "prefix (gitHubRepositories rs2) (gitHubRepositories rs3)"
    using r by (rule insertablePRs_prefix)
  have p3: "prefix (gitHubRepositories rs3) (gitHubRepositories rs'')"
    using Cons.prems(2) out by simp
  have "find (sameRepository ep (api_repo (api_head pr))) (gitHubRepositories rs1) = Some headRepo"
    using h by (rule findOrPutGitHubRepository_result)
  then have "find (sameRepository ep (api_repo (api_head pr))) (gitHubRepositories rs'') = Some headRepo"
    using p12 p23 p3 by (metis find_prefix)
  then have h': "findOrPutGitHubRepository ep (api_repo (api_head pr)) rs'' = (headRepo, rs'')"
    by (rule findOrPutGitHubRepository_found)
  have "find (sameRepository ep (api_repo (api_base pr))) (gitHubRepositories rs2) = Some baseRepo"
    using b by (rule findOrPutGitHubRepository_result)
  then have "find (sameRepository ep (api_repo (api_base pr))) (gitHubRepositories rs'') = Some baseRepo"
    using p23 p3 by (metis find_prefix)
  then have b': "findOrPutGitHubRepository ep (api_repo (api_base pr)) rs'' = (baseRepo, rs'')"
    by (rule findOrPutGitHubRepository_found)
  have r': "insertablePRs ep prs rs'' = (rest, rs'')"
    using r p3 by (rule Cons.IH)
  show ?case
    unfolding rows using h b r h' b' r' by (simp add: Let_def)
qed

subsection \<open>Auxiliary facts about the pull request table\<close>

lemma bulkAdd_rows:
  "pullRequests (bulkAdd rows d) =
     pullRequests d @ map (\<lambda>(k, r). r\<lparr>row_id := Some k\<rparr>) (enumerate (nextPullRequestId d) rows)
   \<and> nextPullRequestId (bulkAdd rows d) = nextPullRequestId d + length rows"
  by (induction rows arbitrary: d) simp_all

lemma map_insort_key:
  "map c (insort_key (\<lambda>x. f (c x)) x xs) = insort_key f (c x) (map c xs)"
  by (induction xs) simp_all

lemma map_sort_key:
  "map c (sort_key (\<lambda>x. f (c x)) xs) = sort_key f (map c xs)"
  by (induction xs) (simp_all add: map_insort_key)

subsection \<open>Auxiliary facts about a refresh\<close>

lemma writePullRequests_Inr:
  assumes "\<not> falsy (dbID repository)"
    and "insertablePRs (endpoint repository) fetched (repositoriesStore st) = (rows, rs)"
  shows "writePullRequests fetched repository st =
    (Inr (), \<lparr>db = bulkAdd rows (clear (db st)), repositoriesStore = rs\<rparr>)"
  using assms by (simp add: writePullRequests_def)

text \<open>After the fetch has succeeded for a repository with a \<open>dbID\<close>, the refresh leaves the
  table and the repositories store as \<open>writePullRequests\<close> made them, whether or not the
  statuses could be fetched.\<close>

lemma updatePullRequests_tables:
  assumes "fetchPullRequests api (login (owner repository)) (name repository) ''open'' = Inr fetched"
    and "\<not> falsy (dbID repository)"
    and "insertablePRs (endpoint repository) fetched (repositoriesStore st) = (rows, rs)"
  shows "pullRequests (db (snd (updatePullRequests repository api st))) =
      map (\<lambda>(k, r). r\<lparr>row_id := Some k\<rparr>) (enumerate (nextPullRequestId (db st)) rows)"
    and "nextPullRequestId (db (snd (updatePullRequests repository api st))) =
      nextPullRequestId (db st) + length rows"
    and "repositoriesStore (snd (updatePullRequests repository api st)) = rs"
proof -
  let ?st1 = "\<lparr>db = bulkAdd rows (clear (db st)), repositoriesStore = rs\<rparr>"
  have w: "writePullRequests fetched repository st = (Inr (), ?st1)"
    using assms(2,3) by (rule writePullRequests_Inr)
  have v: "getPullRequests repository ?st1 = Inr (map (buildPR ?st1) (reverse_sortBy_number
      (where_base_repoId_equals (dbID repository) (pullRequests (db ?st1)))))"
    using assms(2) by (rule getPullRequests_Inr)
  have "snd (updatePullRequests repository api st) = ?st1
      \<or> (\<exists>batch. snd (updatePullRequests repository api st) = writePullRequestStatus batch ?st1)"
    by (auto simp: updatePullRequests_def assms(1) w v Let_def split: sum.split)
  then have "pullRequests (db (snd (updatePullRequests repository api st))) = pullRequests (db ?st1)
      \<and> nextPullRequestId (db (snd (updatePullRequests repository api st))) = nextPullRequestId (db ?st1)
      \<and> repositoriesStore (snd (updatePullRequests repository api st)) = rs"
    by (auto simp: writePullRequestStatus_def)
  then show "pullRequests (db (snd (updatePullRequests repository api st))) =
      map (\<lambda>(k, r). r\<lparr>row_id := Some k\<rparr>) (enumerate (nextPullRequestId (db st)) rows)"
    and "nextPullRequestId (db (snd (updatePullRequests repository api st))) =
      nextPullRequestId (db st) + length rows"
    and "repositoriesStore (snd (updatePullRequests repository api st)) = rs"
    by (simp_all add: bulkAdd_rows clear_def)
qed

lemma unstamp_enumerate:
  "map (\<lambda>r. r\<lparr>row_id := None\<rparr>) (map (\<lambda>(k, r). r\<lparr>row_id := Some k\<rparr>) (enumerate n rows)) =
   map (\<lambda>r. r\<lparr>row_id := None\<rparr>) rows"
  by (induction rows arbitrary: n) simp_all

text \<open>The storage listing, read without the ids, depends on the table without the ids only.\<close>

lemma listing_without_ids:
  "map (\<lambda>r. r\<lparr>row_id := None\<rparr>) (reverse_sortBy_number (where_base_repoId_equals i rows)) =
   sort_key (\<lambda>r. - row_number r)
     (rev (filter (\<lambda>r. repoId (row_base r) = i) (map (\<lambda>r. r\<lparr>row_id := None\<rparr>) rows)))"
proof -
  have "map (\<lambda>r. r\<lparr>row_id := None\<rparr>) (sort_key (\<lambda>r. - row_number r) xs) =
      sort_key (\<lambda>r. - row_number r) (map (\<lambda>r. r\<lparr>row_id := None\<rparr>) xs)" for xs
    using map_sort_key [of "\<lambda>r. r\<lparr>row_id := None\<rparr>" "\<lambda>r. - row_number r" xs] by simp
  then show ?thesis
    by (simp add: reverse_sortBy_number_def where_base_repoId_equals_def rev_map filter_map comp_def)
qed

lemma view_without_ids:
  "map (\<lambda>p. (number p, title p, ref_sha (head p))) (map (buildPR st) rows) =
   map (\<lambda>r. (row_number r, row_title r, row_sha (row_head r))) (map (\<lambda>r. r\<lparr>row_id := None\<rparr>) rows)"
  by (simp add: comp_def)

lemma updatePullRequests_unchanged_on_early_failure:
  assumes "(\<exists>msg. fetchPullRequests api (login (owner repository)) (name repository) ''open'' = Inl msg)
      \<or> falsy (dbID repository)"
  shows "snd (updatePullRequests repository api st) = st"
    and "\<exists>e. fst (updatePullRequests repository api st) = Inl e"
  using assms
  by (auto simp: updatePullRequests_def writePullRequests_def fatalError_def split: sum.split)

text \<open>A second refresh against the same remote writes the same rows, ids apart.\<close>

lemma refresh_twice_rows:
  "map (\<lambda>r. r\<lparr>row_id := None\<rparr>)
     (pullRequests (db (snd (updatePullRequests repository api
        (snd (updatePullRequests repository api st)))))) =
   map (\<lambda>r. r\<lparr>row_id := None\<rparr>)
     (pullRequests (db (snd (updatePullRequests repository api st))))"
proof (cases "(\<exists>msg. fetchPullRequests api (login (owner repository)) (name repository) ''open'' = Inl msg)
      \<or> falsy (dbID repository)")
  case True
  then show ?thesis
    by (simp add: updatePullRequests_unchanged_on_early_failure(1))
next
  case False
  then obtain fetched where
    f: "fetchPullRequests api (login (owner repository)) (name repository) ''open'' = Inr fetched"
    and d: "\<not> falsy (dbID repository)"
    by (cases "fetchPullRequests api (login (owner repository)) (name repository) ''open''") auto
  obtain rows rs where
    i: "insertablePRs (endpoint repository) fetched (repositoriesStore st) = (rows, rs)"
    by (cases "insertablePRs (endpoint repository) fetched (repositoriesStore st)")
  let ?s1 = "snd (updatePullRequests repository api st)"
  have rs: "repositoriesStore ?s1 = rs"
    using f d i by (rule updatePullRequests_tables)
  have "insertablePRs (endpoint repository) fetched rs = (rows, rs)"
    using i by (rule insertablePRs_again) simp
  then have i': "insertablePRs (endpoint repository) fetched (repositoriesStore ?s1) = (rows, rs)"
    using rs by simp
  show ?thesis
    unfolding updatePullRequests_tables(1) [OF f d i] updatePullRequests_tables(1) [OF f d i']
    by (simp only: unstamp_enumerate)
qed

lemma listing_same_rows:
  assumes "map (\<lambda>r. r\<lparr>row_id := None\<rparr>) xs = map (\<lambda>r. r\<lparr>row_id := None\<rparr>) ys"
  shows "map (\<lambda>r. r\<lparr>row_id := None\<rparr>) (reverse_sortBy_number (where_base_repoId_equals i xs)) =
         map (\<lambda>r. r\<lparr>row_id := None\<rparr>) (reverse_sortBy_number (where_base_repoId_equals i ys))"
  unfolding listing_without_ids assms ..

lemma map_through_unstamp:
  assumes "map (\<lambda>r. r\<lparr>row_id := None\<rparr>) xs = map (\<lambda>r. r\<lparr>row_id := None\<rparr>) ys"
    and "\<And>r. f (r\<lparr>row_id := None\<rparr>) = f r"
  shows "map f xs = map f ys"
proof -
  have "map f zs = map f (map (\<lambda>r. r\<lparr>row_id := None\<rparr>) zs)" for zs
    by (simp add: assms(2))
  then show ?thesis
    by (metis assms(1))
qed

text \<open>With the pull requests fetched for a repository with a \<open>dbID\<close>, the refresh returns a
  sequence exactly when the status of every row it has written for the repository can be
  fetched.\<close>

lemma updatePullRequests_succeeds_iff:
  assumes f: "fetchPullRequests api (login (owner repository)) (name repository) ''open'' = Inr fetched"
    and d: "\<not> falsy (dbID repository)"
  shows "(\<exists>res. fst (updatePullRequests repository api st) = Inr res) \<longleftrightarrow>
     \<not> (\<exists>r \<in> set (where_base_repoId_equals (dbID repository)
              (pullRequests (db (snd (updatePullRequests repository api st))))).
          \<exists>msg. fetchCombinedRefStatus api (login (owner repository)) (name repository)
                  (row_sha (row_head r)) = Inl msg)"
proof -
  obtain rows rs where
    i: "insertablePRs (endpoint repository) fetched (repositoriesStore st) = (rows, rs)"
    by (cases "insertablePRs (endpoint repository) fetched (repositoriesStore st)")
  let ?st1 = "\<lparr>db = bulkAdd rows (clear (db st)), repositoriesStore = rs\<rparr>"
  let ?scope = "where_base_repoId_equals (dbID repository) (pullRequests (db ?st1))"
  let ?prs = "map (buildPR ?st1) (reverse_sortBy_number ?scope)"
  have w: "writePullRequests fetched repository st = (Inr (), ?st1)"
    using d i by (rule writePullRequests_Inr)
  have v: "getPullRequests repository ?st1 = Inr ?prs"
    using d by (rule getPullRequests_Inr)
  have table: "pullRequests (db (snd (updatePullRequests repository api st))) = pullRequests (db ?st1)"
    unfolding updatePullRequests_tables(1) [OF f d i] by (simp add: bulkAdd_rows clear_def)
  have shas: "(\<exists>p \<in> set ?prs. \<exists>msg. fetchCombinedRefStatus api (login (owner repository))
        (name repository) (ref_sha (head p)) = Inl msg) \<longleftrightarrow>
      (\<exists>r \<in> set ?scope. \<exists>msg. fetchCombinedRefStatus api (login (owner repository))
        (name repository) (row_sha (row_head r)) = Inl msg)"
    by simp
  show ?thesis
  proof (cases "fetchStatuses api repository ?prs")
    case (Inl msg)
    then have "fst (updatePullRequests repository api st) = Inl (RemoteFetchFailure msg)"
      by (simp add: updatePullRequests_def f w v)
    moreover have "\<exists>p \<in> set ?prs. \<exists>msg. fetchCombinedRefStatus api (login (owner repository))
        (name repository) (ref_sha (head p)) = Inl msg"
      using Inl fetchStatuses_Inl_iff [of api repository ?prs] by blast
    ultimately show ?thesis
      unfolding table using shas by simp
  next
    case (Inr batch)
    then have "fst (updatePullRequests repository api st) =
        getPullRequests repository (writePullRequestStatus batch ?st1)"
      by (simp add: updatePullRequests_def f w v Let_def)
    then have "\<exists>res. fst (updatePullRequests repository api st) = Inr res"
      using getPullRequests_Inr [OF d] by simp
    moreover have "\<not> (\<exists>p \<in> set ?prs. \<exists>msg. fetchCombinedRefStatus api (login (owner repository))
        (name repository) (ref_sha (head p)) = Inl msg)"
      using Inr fetchStatuses_Inl_iff [of api repository ?prs] by auto
    ultimately show ?thesis
      unfolding table using shas by simp
  qed
qed

lemma scope_same_rows:
  assumes "map (\<lambda>r. r\<lparr>row_id := None\<rparr>) xs = map (\<lambda>r. r\<lparr>row_id := None\<rparr>) ys"
  shows "map (\<lambda>r. r\<lparr>row_id := None\<rparr>) (where_base_repoId_equals i xs) =
         map (\<lambda>r. r\<lparr>row_id := None\<rparr>) (where_base_repoId_equals i ys)"
proof -
  have "map (\<lambda>r. r\<lparr>row_id := None\<rparr>) (where_base_repoId_equals i zs) =
      filter (\<lambda>r. repoId (row_base r) = i) (map (\<lambda>r. r\<lparr>row_id := None\<rparr>) zs)" for zs
    by (simp add: where_base_repoId_equals_def filter_map comp_def)
  then show ?thesis
    using assms by simp
qed

lemma ex_through_map:
  assumes "map f xs = map f ys"
  shows "(\<exists>x \<in> set xs. P (f x)) \<longleftrightarrow> (\<exists>y \<in> set ys. P (f y))"
proof -
  have "(\<exists>x \<in> set zs. P (f x)) \<longleftrightarrow> (\<exists>v \<in> set (map f zs). P v)" for zs
    by simp
  then show ?thesis
    unfolding assms by (simp only: assms)
qed

lemma refresh_twice_succeeds:
  assumes "fst (updatePullRequests repository api st) = Inr res"
  shows "\<exists>res'. fst (updatePullRequests repository api
      (snd (updatePullRequests repository api st))) = Inr res'"
proof -
  let ?s1 = "snd (updatePullRequests repository api st)"
  let ?s2 = "snd (updatePullRequests repository api ?s1)"
  have early: "\<not> ((\<exists>msg. fetchPullRequests api (login (owner repository)) (name repository) ''open'' = Inl msg)
      \<or> falsy (dbID repository))"
    using assms updatePullRequests_unchanged_on_early_failure(2) [of api repository st] by auto
  then obtain fetched where
    f: "fetchPullRequests api (login (owner repository)) (name repository) ''open'' = Inr fetched"
    and d: "\<not> falsy (dbID repository)"
    by (cases "fetchPullRequests api (login (owner repository)) (name repository) ''open''") auto
  have shas: "map (\<lambda>r. row_sha (row_head r)) (where_base_repoId_equals (dbID repository) (pullRequests (db ?s2))) =
      map (\<lambda>r. row_sha (row_head r)) (where_base_repoId_equals (dbID repository) (pullRequests (db ?s1)))"
    by (rule map_through_unstamp [OF scope_same_rows [OF refresh_twice_rows]]) simp
  have first: "\<not> (\<exists>r \<in> set (where_base_repoId_equals (dbID repository) (pullRequests (db ?s1))).
        \<exists>msg. fetchCombinedRefStatus api (login (owner repository)) (name repository)
                (row_sha (row_head r)) = Inl msg)"
    using assms updatePullRequests_succeeds_iff [OF f d, of st] by blast
  then have "\<not> (\<exists>r \<in> set (where_base_repoId_equals (dbID repository) (pullRequests (db ?s2))).
        \<exists>msg. fetchCombinedRefStatus api (login (owner repository)) (name repository)
                (row_sha (row_head r)) = Inl msg)"
    unfolding ex_through_map [OF shas,
        of "\<lambda>s. \<exists>msg. fetchCombinedRefStatus api (login (owner repository)) (name repository) s = Inl msg"] .
  then show ?thesis
    unfolding updatePullRequests_succeeds_iff [OF f d, of ?s1] .
qed

subsection \<open>Auxiliary facts about the rows a refresh writes and the statuses it fetches\<close>


lemma list_all2_right: "list_all2 R xs ys \<Longrightarrow> y \<in> set ys \<Longrightarrow> \<exists>x \<in> set xs. R x y"
  by (induction rule: list_all2_induct) auto




lemma fetchStatuses_rows:
  "fetchStatuses api repository prs = Inr batch \<Longrightarrow>
   list_all2 (\<lambda>p b. pullRequestId b = pr_id p \<and> status_sha b = ref_sha (head p)
       \<and> (\<exists>s. fetchCombinedRefStatus api (login (owner repository)) (name repository)
                 (ref_sha (head p)) = Inr s
              \<and> status_state b = api_state s \<and> status_totalCount b = api_total_count s))
     prs batch"
  by (induction prs arbitrary: batch) (auto split: sum.splits)


lemma stamped_row_origin:
  "t \<in> set (map (\<lambda>(k, r). r\<lparr>row_id := Some k\<rparr>) (enumerate n rows)) \<Longrightarrow>
   \<exists>k r. n \<le> k \<and> k < n + length rows \<and> r \<in> set rows \<and> t = r\<lparr>row_id := Some k\<rparr>"
proof (induction rows arbitrary: n)
  case Nil
  then show ?case by simp
next
  case (Cons x xs)
  show ?case
  proof (cases "t = x\<lparr>row_id := Some n\<rparr>")
    case True
    then show ?thesis
      by (intro exI [of _ n] exI [of _ x]) simp
  next
    case False
    with Cons.prems have "t \<in> set (map (\<lambda>(k, r). r\<lparr>row_id := Some k\<rparr>) (enumerate (Suc n) xs))"
      by simp
    then obtain k r where "Suc n \<le> k" "k < Suc n + length xs" "r \<in> set xs" "t = r\<lparr>row_id := Some k\<rparr>"
      using Cons.IH by blast
    then show ?thesis
      by (intro exI [of _ k] exI [of _ r]) simp
  qed
qed




lemma updatePullRequests_Inr_form:
  assumes f: "fetchPullRequests api (login (owner repository)) (name repository) ''open'' = Inr fetched"
    and d: "\<not> falsy (dbID repository)"
    and i: "insertablePRs (endpoint repository) fetched (repositoriesStore st) = (rows, rs)"
    and ok: "updatePullRequests repository api st = (Inr res, st')"
  shows "\<exists>batch.
     fetchStatuses api repository
       (map (buildPR \<lparr>db = bulkAdd rows (clear (db st)), repositoriesStore = rs\<rparr>)
         (reverse_sortBy_number (where_base_repoId_equals (dbID repository)
           (pullRequests (bulkAdd rows (clear (db st))))))) = Inr batch
     \<and> st' = writePullRequestStatus batch \<lparr>db = bulkAdd rows (clear (db st)), repositoriesStore = rs\<rparr>
     \<and> res = map (buildPR st')
         (reverse_sortBy_number (where_base_repoId_equals (dbID repository)
           (pullRequests (bulkAdd rows (clear (db st))))))"
proof -
  let ?st1 = "\<lparr>db = bulkAdd rows (clear (db st)), repositoriesStore = rs\<rparr>"
  let ?L = "reverse_sortBy_number (where_base_repoId_equals (dbID repository)
    (pullRequests (bulkAdd rows (clear (db st)))))"
  have w: "writePullRequests fetched repository st = (Inr (), ?st1)"
    using d i by (rule writePullRequests_Inr)
  have v: "getPullRequests repository ?st1 = Inr (map (buildPR ?st1) ?L)"
    using getPullRequests_Inr [OF d, of ?st1] by simp
  show ?thesis
  proof (cases "fetchStatuses api repository (map (buildPR ?st1) ?L)")
    case (Inl msg)
    then have "fst (updatePullRequests repository api st) = Inl (RemoteFetchFailure msg)"
      by (simp add: updatePullRequests_def f w v)
    with ok show ?thesis by simp
  next
    case (Inr batch)
    let ?st2 = "writePullRequestStatus batch ?st1"
    have "updatePullRequests repository api st = (getPullRequests repository ?st2, ?st2)"
      using Inr by (simp add: updatePullRequests_def f w v Let_def)
    moreover have "getPullRequests repository ?st2 = Inr (map (buildPR ?st2) ?L)"
      using getPullRequests_Inr [OF d, of ?st2] by (simp add: writePullRequestStatus_def)
    ultimately have "st' = ?st2" "res = map (buildPR ?st2) ?L"
      using ok by simp_all
    with Inr show ?thesis by blast
  qed
qed

text \<open>The status rows only ever refer to ids that the key generator of the pull request
  table has issued: a refresh keeps it so, and it holds of an empty status table.\<close>

lemma issued_ids_invariant:
  assumes issued: "\<forall>s \<in> set (pullRequestStatus (db st)). \<forall>k.
      pullRequestId s = Some k \<longrightarrow> k < nextPullRequestId (db st)"
  shows "\<forall>s \<in> set (pullRequestStatus (db (snd (updatePullRequests repository api st)))). \<forall>k.
      pullRequestId s = Some k \<longrightarrow>
        k < nextPullRequestId (db (snd (updatePullRequests repository api st)))"
proof (cases "(\<exists>msg. fetchPullRequests api (login (owner repository)) (name repository) ''open'' = Inl msg)
      \<or> falsy (dbID repository)")
  case True
  then show ?thesis
    using issued by (simp add: updatePullRequests_unchanged_on_early_failure(1))
next
  case False
  then obtain fetched where
    f: "fetchPullRequests api (login (owner repository)) (name repository) ''open'' = Inr fetched"
    and d: "\<not> falsy (dbID repository)"
    by (cases "fetchPullRequests api (login (owner repository)) (name repository) ''open''") auto
  obtain rows rs where
    i: "insertablePRs (endpoint repository) fetched (repositoriesStore st) = (rows, rs)"
    by (cases "insertablePRs (endpoint repository) fetched (repositoriesStore st)")
  let ?n = "nextPullRequestId (db st)"
  let ?s' = "snd (updatePullRequests repository api st)"
  let ?st1 = "\<lparr>db = bulkAdd rows (clear (db st)), repositoriesStore = rs\<rparr>"
  let ?T = "map (\<lambda>(k, r). r\<lparr>row_id := Some k\<rparr>) (enumerate ?n rows)"
  have next_id: "nextPullRequestId (db ?s') = ?n + length rows"
    using f d i by (rule updatePullRequests_tables)
  have table: "pullRequests (bulkAdd rows (clear (db st))) = ?T"
    by (simp add: bulkAdd_rows clear_def)
  show ?thesis
  proof (cases "fst (updatePullRequests repository api st)")
    case (Inl e)
    have w: "writePullRequests fetched repository st = (Inr (), ?st1)"
      using d i by (rule writePullRequests_Inr)
    have "?s' = ?st1"
      using Inl getPullRequests_Inr [OF d]
      by (auto simp: updatePullRequests_def f w Let_def split: sum.splits)
    then have "pullRequestStatus (db ?s') = pullRequestStatus (db st)"
      by (simp add: clear_def)
    then show ?thesis
      using issued next_id by auto
  next
    case (Inr res)
    then have ok: "updatePullRequests repository api st = (Inr res, ?s')"
      by (simp add: prod_eq_iff)
    from updatePullRequests_Inr_form [OF f d i ok] obtain batch where
      batch: "fetchStatuses api repository (map (buildPR ?st1)
          (reverse_sortBy_number (where_base_repoId_equals (dbID repository) ?T))) = Inr batch"
      and s': "?s' = writePullRequestStatus batch ?st1"
      unfolding table by blast
    have statuses: "pullRequestStatus (db ?s') = pullRequestStatus (db st) @ batch"
      by (subst s') (simp add: writePullRequestStatus_def clear_def)
    have new: "k < ?n + length rows" if b: "b \<in> set batch" "pullRequestId b = Some k" for b k
    proof -
      from list_all2_right [OF fetchStatuses_rows [OF batch] b(1)]
      obtain p where "p \<in> set (map (buildPR ?st1)
          (reverse_sortBy_number (where_base_repoId_equals (dbID repository) ?T)))"
        and "pullRequestId b = pr_id p"
        by blast
      then obtain t where t: "t \<in> set (where_base_repoId_equals (dbID repository) ?T)"
        and "row_id t = Some k"
        using b(2) by auto
      moreover from t have "t \<in> set ?T"
        unfolding where_base_repoId_equals_def by (simp only: set_filter) blast
      ultimately show ?thesis
        using stamped_row_origin [of t ?n rows] by auto
    qed
    show ?thesis
      unfolding statuses next_id using issued new by (auto simp: trans_less_add1)
  qed
qed

subsection \<open>Scoping of the replace\<close>

text \<open>
  Claim C1 (refreshing repository A leaves the rows of repository B present and unchanged)
  does not hold of the code: \<open>table.clear()\<close> empties the whole table. Evaluated on a store
  that caches pull request 7 of repository B: after a refresh of repository A the table
  holds the two rows of A only, and the view of B, which had one entry, is empty.
\<close>

theorem updatePullRequests_clears_other_repository:
  "where_base_repoId_equals (dbID repoB) (pullRequests (db store_B)) = [storedRow 1 7 ''s7'' 2 2]
   \<and> map_sum id (map number) (getPullRequests repoB store_B) = Inr [7]
   \<and> map_sum id (map number) (fst (updatePullRequests repoA api_ok store_B)) = Inr [5, 3]
   \<and> where_base_repoId_equals (dbID repoB)
        (pullRequests (db (snd (updatePullRequests repoA api_ok store_B)))) = []
   \<and> getPullRequests repoB (snd (updatePullRequests repoA api_ok store_B)) = Inr []"
  by code_simp

subsection \<open>The status lookup\<close>

text \<open>
  Claim C2 as stated (with several rows under one key the lookup returns the most recently
  appended one) fails: with a \<open>pending\<close> row appended before a \<open>success\<close> row under the
  key \<open>(s5, 2)\<close>, the lookup returns the \<open>pending\<close> one.
\<close>

theorem getPullRequestStatusById_not_latest:
  "filter (status_key_equals ''s5'' (Some 2)) (pullRequestStatus (db store_A)) =
     [\<lparr>status_state = ''pending'', status_totalCount = 1, pullRequestId = Some 2, status_sha = ''s5''\<rparr>,
      \<lparr>status_state = ''success'', status_totalCount = 2, pullRequestId = Some 2, status_sha = ''s5''\<rparr>]
   \<and> getPullRequestStatusById ''s5'' (Some 2) store_A =
       Some \<lparr>state = ''pending'', totalCount = 1, sha = ''s5''\<rparr>
   \<and> getPullRequestStatusById ''s5'' (Some 2) store_A \<noteq>
       Some (newPullRequestStatus
         (last (filter (status_key_equals ''s5'' (Some 2)) (pullRequestStatus (db store_A)))))"
  by code_simp

text \<open>
  Claim C2, amended: the lookup returns absent when no row is recorded under the key, and
  otherwise the snapshot of exactly one row, the one appended first under that key.
\<close>

theorem getPullRequestStatusById_first_appended:
  "getPullRequestStatusById s i st =
     (case filter (status_key_equals s i) (pullRequestStatus (db st)) of
        [] \<Rightarrow> None
      | result # later \<Rightarrow> Some (newPullRequestStatus result))"
  by (simp add: getPullRequestStatusById_def find_first_of_filter split: list.split)

subsection \<open>A failed fetch of the pull requests\<close>

text \<open>
  Claim C3: if the fetch of the open pull requests fails, \<open>updatePullRequests\<close> fails with
  that error and leaves the whole store as it was, so \<open>getPullRequests\<close> returns for every
  repository what it returned before.
\<close>

theorem updatePullRequests_fetch_failure_unchanged:
  assumes "fetchPullRequests api (login (owner repository)) (name repository) ''open'' = Inl msg"
  shows "updatePullRequests repository api st = (Inl (RemoteFetchFailure msg), st)
         \<and> getPullRequests r (snd (updatePullRequests repository api st)) = getPullRequests r st"
  using assms by (simp add: updatePullRequests_def)

theorem updatePullRequests_fetch_failure_unchanged_witness:
  "fetchPullRequests api_down (login (owner repoA)) (name repoA) ''open'' = Inl ''rate limit exceeded''
   \<and> updatePullRequests repoA api_down store_A = (Inl (RemoteFetchFailure ''rate limit exceeded''), store_A)
   \<and> getPullRequests repoA (snd (updatePullRequests repoA api_down store_A)) = getPullRequests repoA store_A"
proof -
  have h: "fetchPullRequests api_down (login (owner repoA)) (name repoA) ''open'' = Inl ''rate limit exceeded''"
    by (simp add: api_down_def)
  from updatePullRequests_fetch_failure_unchanged [OF h, of store_A repoA] h
  show ?thesis by simp
qed

subsection \<open>Unresolved repositories in the view\<close>

text \<open>
  Claim C5 (a stored row whose \<open>head.repoId\<close> does not resolve is skipped or fails the build)
  does not hold of the code. Evaluated on a store whose only row has the head repository 9,
  unknown to the repositories store: the view is built, with that row, and its head carries
  no repository.
\<close>

theorem getPullRequests_unresolved_head:
  "findGitHubRepositoryByID (Some 9) (repositoriesStore store_dangling) = None
   \<and> getPullRequests repoA store_dangling =
       Inr [\<lparr>pr_id = Some 1, created = Date ''2017-08-01'', status = None, title = ''a title'',
             number = 3,
             head = \<lparr>ref = ''feature'', ref_sha = ''s3'', gitHubRepository = None\<rparr>,
             base = \<lparr>ref = ''master'', ref_sha = ''b0'', gitHubRepository = Some repoA\<rparr>,
             author = ''alice''\<rparr>]"
  by code_simp

subsection \<open>A repository without a local identity\<close>

text \<open>
  Claim C6 as stated (a refresh of a repository without \<open>dbID\<close> signals PreconditionViolation)
  fails when the fetch fails: the fetch comes first, and its error is the one signalled.
\<close>

theorem updatePullRequests_no_dbID_fetch_failure:
  "dbID repoNoId = None
   \<and> updatePullRequests repoNoId api_down store0 =
       (Inl (RemoteFetchFailure ''rate limit exceeded''), store0)"
  by code_simp

text \<open>
  Claim C6, amended: for a repository without \<open>dbID\<close> (null, or zero),
  \<open>getPullRequests\<close> signals PreconditionViolation; \<open>updatePullRequests\<close> signals
  PreconditionViolation when the fetch succeeded and the error of the fetch when it failed;
  neither returns a sequence, and the store is left unchanged.
\<close>

theorem no_dbID_is_an_error:
  assumes "falsy (dbID repository)"
  shows "getPullRequests repository st =
           Inl (PreconditionViolation
             ''Cannot get pull requests for a repository that hasn't been inserted into the database!'')
         \<and> (\<forall>prs. fetchPullRequests api (login (owner repository)) (name repository) ''open'' = Inr prs \<longrightarrow>
               updatePullRequests repository api st =
                 (Inl (PreconditionViolation
                    ''Cannot store pull requests for a repository that hasn't been inserted into the database!''), st))
         \<and> (\<forall>msg. fetchPullRequests api (login (owner repository)) (name repository) ''open'' = Inl msg \<longrightarrow>
               updatePullRequests repository api st = (Inl (RemoteFetchFailure msg), st))
         \<and> (\<forall>prs. fst (updatePullRequests repository api st) \<noteq> Inr prs)"
  using assms
  by (simp add: getPullRequests_def updatePullRequests_def writePullRequests_def fatalError_def
      split: sum.split)

theorem no_dbID_is_an_error_witness:
  "falsy (dbID repoNoId)
   \<and> fetchPullRequests api_ok (login (owner repoNoId)) (name repoNoId) ''open'' =
       Inr [apiPR 3 ''three'' ''s3'', apiPR 5 ''five'' ''s5'']
   \<and> getPullRequests repoNoId store_A =
       Inl (PreconditionViolation
         ''Cannot get pull requests for a repository that hasn't been inserted into the database!'')
   \<and> updatePullRequests repoNoId api_ok store_A =
       (Inl (PreconditionViolation
          ''Cannot store pull requests for a repository that hasn't been inserted into the database!''), store_A)
   \<and> fetchPullRequests api_down (login (owner repoNoId)) (name repoNoId) ''open'' = Inl ''rate limit exceeded''
   \<and> updatePullRequests repoNoId api_down store_A = (Inl (RemoteFetchFailure ''rate limit exceeded''), store_A)"
proof -
  have h: "falsy (dbID repoNoId)"
    by (simp add: falsy_def repoNoId_def)
  have ok: "fetchPullRequests api_ok (login (owner repoNoId)) (name repoNoId) ''open'' =
      Inr [apiPR 3 ''three'' ''s3'', apiPR 5 ''five'' ''s5'']"
    by (simp add: api_ok_def)
  have down: "fetchPullRequests api_down (login (owner repoNoId)) (name repoNoId) ''open'' = Inl ''rate limit exceeded''"
    by (simp add: api_down_def)
  from no_dbID_is_an_error [OF h, of store_A api_ok] no_dbID_is_an_error [OF h, of store_A api_down]
    h ok down
  show ?thesis by simp
qed

subsection \<open>The order of the view\<close>

text \<open>
  Claim C4 as stated (the view is in strictly descending order of number, for every
  repository) fails when two rows of the repository carry the same number: the code does
  nothing to keep them apart. On a store that caches the numbers 3, 3 and 4 for repository A
  the view is 4, 3, 3; and a refresh whose fetch delivers the record of pull request 3 twice
  (and 4 once) writes all three rows and returns 4, 3, 3.
\<close>

theorem getPullRequests_number_not_strict:
  "map row_number (where_base_repoId_equals (dbID repoA) (pullRequests (db store_twice))) = [3, 3, 4]
   \<and> map_sum id (map number) (getPullRequests repoA store_twice) = Inr [4, 3, 3]
   \<and> map_sum id (map number) (fst (updatePullRequests repoA api_twice store0)) = Inr [4, 3, 3]
   \<and> map_sum id (map number)
        (getPullRequests repoA (snd (updatePullRequests repoA api_twice store0))) = Inr [4, 3, 3]
   \<and> \<not> sorted_wrt (>) [4, 3, 3 :: int]"
  by code_simp

text \<open>
  Claim C4, amended: for a repository with a \<open>dbID\<close>, \<open>getPullRequests\<close> returns the pull
  requests in the order of the storage listing
  (\<open>where('base.repoId').equals(id).reverse().sortBy('number')\<close>), by number descending, equal
  numbers next to each other; the order is strictly descending when the numbers of the
  repository's rows are pairwise distinct. The sequence that \<open>updatePullRequests\<close> returns is
  the view of the store it leaves behind, in the same order.
\<close>

theorem getPullRequests_number_descending:
  assumes "\<not> falsy (dbID repository)"
  shows "\<exists>prs. getPullRequests repository st = Inr prs
     \<and> map pr_id prs = map row_id (reverse_sortBy_number
           (where_base_repoId_equals (dbID repository) (pullRequests (db st))))
     \<and> map number prs = map row_number (reverse_sortBy_number
           (where_base_repoId_equals (dbID repository) (pullRequests (db st))))
     \<and> sorted_wrt (\<lambda>a b. b \<le> a) (map number prs)
     \<and> (distinct (map row_number (where_base_repoId_equals (dbID repository) (pullRequests (db st))))
          \<longrightarrow> sorted_wrt (\<lambda>a b. b < a) (map number prs))
     \<and> (\<forall>res st'. updatePullRequests repository api st = (Inr res, st') \<longrightarrow>
          getPullRequests repository st' = Inr res
          \<and> sorted_wrt (\<lambda>a b. b \<le> a) (map number res)
          \<and> (distinct (map row_number (where_base_repoId_equals (dbID repository) (pullRequests (db st'))))
               \<longrightarrow> sorted_wrt (\<lambda>a b. b < a) (map number res)))"
proof -
  let ?rows = "\<lambda>s. reverse_sortBy_number (where_base_repoId_equals (dbID repository) (pullRequests (db s)))"
  have view: "getPullRequests repository s = Inr (map (buildPR s) (?rows s))" for s
    using assms by (rule getPullRequests_Inr)
  have numbers: "map number (map (buildPR s) (?rows s)) = map row_number (?rows s)" for s
    by (simp add: comp_def)
  have desc: "sorted_wrt (\<lambda>a b. b \<le> a) (map number (map (buildPR s) (?rows s)))" for s
    unfolding numbers by (rule reverse_sortBy_number_descending)
  have strict: "sorted_wrt (\<lambda>a b. b < a) (map number (map (buildPR s) (?rows s)))"
    if "distinct (map row_number (where_base_repoId_equals (dbID repository) (pullRequests (db s))))" for s
    using that desc [of s] unfolding numbers
    by (intro descending_distinct_strict) (simp_all add: distinct_numbers_reverse_sortBy_number)
  have refresh: "getPullRequests repository st' = Inr res
      \<and> sorted_wrt (\<lambda>a b. b \<le> a) (map number res)
      \<and> (distinct (map row_number (where_base_repoId_equals (dbID repository) (pullRequests (db st'))))
           \<longrightarrow> sorted_wrt (\<lambda>a b. b < a) (map number res))"
    if "updatePullRequests repository api st = (Inr res, st')" for res st'
  proof -
    have "getPullRequests repository st' = Inr res"
      using that by (rule updatePullRequests_returns_view)
    with view [of st'] desc [of st'] strict [of st'] show ?thesis by auto
  qed
  show ?thesis
    using view [of st] desc [of st] strict [of st] refresh
    by (intro exI [of _ "map (buildPR st) (?rows st)"]) (simp add: comp_def)
qed

theorem getPullRequests_number_descending_witness:
  "\<not> falsy (dbID repoA)
   \<and> distinct (map row_number (where_base_repoId_equals (dbID repoA) (pullRequests (db store_A))))
   \<and> (\<exists>prs. getPullRequests repoA store_A = Inr prs \<and> map number prs = [5, 3]
         \<and> sorted_wrt (\<lambda>a b. b < a) (map number prs))
   \<and> map_sum id (map number) (fst (updatePullRequests repoA api_ok store_A)) = Inr [5, 3]"
proof -
  have h: "\<not> falsy (dbID repoA)"
    by (simp add: falsy_def repoA_def)
  have d: "distinct (map row_number (where_base_repoId_equals (dbID repoA) (pullRequests (db store_A))))"
    by code_simp
  have l: "map row_number (reverse_sortBy_number
      (where_base_repoId_equals (dbID repoA) (pullRequests (db store_A)))) = [5, 3]"
    by code_simp
  have u: "map_sum id (map number) (fst (updatePullRequests repoA api_ok store_A)) = Inr [5, 3]"
    by code_simp
  from getPullRequests_number_descending [OF h, of store_A api_ok] d l u h
  show ?thesis by auto
qed

subsection \<open>Pull requests without a status\<close>

text \<open>
  Claim C9: for a repository with a \<open>dbID\<close>, \<open>getPullRequests\<close> succeeds; every cached row of
  the repository with no status row under its key (head sha, id) is in the view, with an
  absent status, and so is every pull request of the view with no status row under its key.
\<close>

theorem getPullRequests_absent_status:
  assumes "\<not> falsy (dbID repository)"
  shows "\<exists>prs. getPullRequests repository st = Inr prs
     \<and> (\<forall>r \<in> set (pullRequests (db st)).
          repoId (row_base r) = dbID repository
          \<and> filter (status_key_equals (row_sha (row_head r)) (row_id r)) (pullRequestStatus (db st)) = []
          \<longrightarrow> (\<exists>p \<in> set prs. pr_id p = row_id r \<and> number p = row_number r \<and> title p = row_title r
                 \<and> ref_sha (head p) = row_sha (row_head r) \<and> status p = None))
     \<and> (\<forall>p \<in> set prs.
          filter (status_key_equals (ref_sha (head p)) (pr_id p)) (pullRequestStatus (db st)) = []
          \<longrightarrow> status p = None)"
proof -
  let ?rows = "reverse_sortBy_number (where_base_repoId_equals (dbID repository) (pullRequests (db st)))"
  have view: "getPullRequests repository st = Inr (map (buildPR st) ?rows)"
    using assms by (rule getPullRequests_Inr)
  have absent: "status (buildPR st r) = None"
    if "filter (status_key_equals (row_sha (row_head r)) (row_id r)) (pullRequestStatus (db st)) = []" for r
    using that by (simp add: getPullRequestStatusById_def find_first_of_filter)
  have cached: "\<exists>p \<in> set (map (buildPR st) ?rows). pr_id p = row_id r \<and> number p = row_number r
      \<and> title p = row_title r \<and> ref_sha (head p) = row_sha (row_head r) \<and> status p = None"
    if "r \<in> set (pullRequests (db st))" "repoId (row_base r) = dbID repository"
      "filter (status_key_equals (row_sha (row_head r)) (row_id r)) (pullRequestStatus (db st)) = []" for r
  proof -
    have "r \<in> set ?rows"
      using that by (simp add: where_base_repoId_equals_def)
    then have "buildPR st r \<in> set (map (buildPR st) ?rows)"
      by simp
    with absent [OF that(3)] show ?thesis
      by (intro bexI [of _ "buildPR st r"]) simp_all
  qed
  have viewed: "status p = None"
    if "p \<in> set (map (buildPR st) ?rows)"
      "filter (status_key_equals (ref_sha (head p)) (pr_id p)) (pullRequestStatus (db st)) = []" for p
    using that absent by auto
  show ?thesis
    using view cached viewed by blast
qed

theorem getPullRequests_absent_status_witness:
  "\<not> falsy (dbID repoA)
   \<and> storedRow 1 3 ''s3'' 1 1 \<in> set (pullRequests (db store_A))
   \<and> filter (status_key_equals ''s3'' (Some 1)) (pullRequestStatus (db store_A)) = []
   \<and> (\<exists>prs. getPullRequests repoA store_A = Inr prs
        \<and> (\<exists>p \<in> set prs. pr_id p = Some 1 \<and> number p = 3 \<and> status p = None))"
proof -
  have h: "\<not> falsy (dbID repoA)"
    by (simp add: falsy_def repoA_def)
  have r: "storedRow 1 3 ''s3'' 1 1 \<in> set (pullRequests (db store_A))"
    by (simp add: store_A_def)
  have b: "repoId (row_base (storedRow 1 3 ''s3'' 1 1)) = dbID repoA"
    by (simp add: storedRow_def repoA_def)
  have f: "filter (status_key_equals (row_sha (row_head (storedRow 1 3 ''s3'' 1 1)))
      (row_id (storedRow 1 3 ''s3'' 1 1))) (pullRequestStatus (db store_A)) = []"
    by code_simp
  have f': "filter (status_key_equals ''s3'' (Some 1)) (pullRequestStatus (db store_A)) = []"
    by code_simp
  have v: "row_id (storedRow 1 3 ''s3'' 1 1) = Some 1" "row_number (storedRow 1 3 ''s3'' 1 1) = 3"
    by (simp_all add: storedRow_def)
  from getPullRequests_absent_status [OF h, of store_A] obtain prs where
    prs: "getPullRequests repoA store_A = Inr prs"
    and rows: "\<forall>r \<in> set (pullRequests (db store_A)).
          repoId (row_base r) = dbID repoA
          \<and> filter (status_key_equals (row_sha (row_head r)) (row_id r)) (pullRequestStatus (db store_A)) = []
          \<longrightarrow> (\<exists>p \<in> set prs. pr_id p = row_id r \<and> number p = row_number r \<and> title p = row_title r
                 \<and> ref_sha (head p) = row_sha (row_head r) \<and> status p = None)"
    by blast
  from rows r b f have "\<exists>p \<in> set prs. pr_id p = row_id (storedRow 1 3 ''s3'' 1 1)
      \<and> number p = row_number (storedRow 1 3 ''s3'' 1 1) \<and> status p = None"
    by blast
  with prs h r f' show ?thesis
    unfolding v by blast
qed

subsection \<open>A failed fetch of a status\<close>

text \<open>
  Claim C10: the status rows are buffered and appended in one batch after the last status
  has been fetched. With the pull requests fetched and written (store \<open>st1\<close>) and their view
  \<open>prs\<close> read, if the status fetch fails for any pull request of the view, the refresh fails
  and leaves the store at \<open>st1\<close>: the rows written in step 2 stay and the status table is
  what it was before the refresh. If every status fetch succeeds, the status table grows by
  exactly one batch, one row per pull request of the view, in the order of the view.
\<close>

theorem updatePullRequests_status_batch:
  assumes "fetchPullRequests api (login (owner repository)) (name repository) ''open'' = Inr prsFromAPI"
    and "writePullRequests prsFromAPI repository st = (Inr u, st1)"
    and "getPullRequests repository st1 = Inr prs"
  shows "((\<exists>p \<in> set prs. \<exists>msg. fetchCombinedRefStatus api (login (owner repository)) (name repository)
              (ref_sha (head p)) = Inl msg) \<longrightarrow>
            (\<exists>msg. updatePullRequests repository api st = (Inl (RemoteFetchFailure msg), st1))
            \<and> pullRequestStatus (db st1) = pullRequestStatus (db st))
     \<and> (\<not> (\<exists>p \<in> set prs. \<exists>msg. fetchCombinedRefStatus api (login (owner repository)) (name repository)
              (ref_sha (head p)) = Inl msg) \<longrightarrow>
            (\<exists>batch. pullRequestStatus (db (snd (updatePullRequests repository api st))) =
                 pullRequestStatus (db st) @ batch
               \<and> map pullRequestId batch = map pr_id prs
               \<and> map status_sha batch = map (\<lambda>p. ref_sha (head p)) prs
               \<and> pullRequests (db (snd (updatePullRequests repository api st))) = pullRequests (db st1)))"
proof -
  have old: "pullRequestStatus (db st1) = pullRequestStatus (db st)"
    using assms(2) by (rule pullRequestStatus_writePullRequests)
  show ?thesis
  proof (cases "fetchStatuses api repository prs")
    case (Inl msg)
    then have "\<exists>p \<in> set prs. \<exists>msg. fetchCombinedRefStatus api (login (owner repository))
        (name repository) (ref_sha (head p)) = Inl msg"
      using fetchStatuses_Inl_iff [of api repository prs] by blast
    moreover have "updatePullRequests repository api st = (Inl (RemoteFetchFailure msg), st1)"
      using assms Inl by (simp add: updatePullRequests_def)
    ultimately show ?thesis
      using old by blast
  next
    case (Inr batch)
    then have none: "\<not> (\<exists>p \<in> set prs. \<exists>msg. fetchCombinedRefStatus api (login (owner repository))
        (name repository) (ref_sha (head p)) = Inl msg)"
      using fetchStatuses_Inl_iff [of api repository prs] by auto
    have "snd (updatePullRequests repository api st) = writePullRequestStatus batch st1"
      using assms Inr by (simp add: updatePullRequests_def Let_def)
    then have "pullRequestStatus (db (snd (updatePullRequests repository api st))) =
        pullRequestStatus (db st) @ batch"
      and "pullRequests (db (snd (updatePullRequests repository api st))) = pullRequests (db st1)"
      using old by (simp_all add: writePullRequestStatus_def)
    with none fetchStatuses_Inr [OF Inr] show ?thesis
      by blast
  qed
qed

theorem updatePullRequests_status_batch_witness:
  "fetchPullRequests api_status_down (login (owner repoA)) (name repoA) ''open'' =
     Inr [apiPR 3 ''three'' ''s3'', apiPR 5 ''five'' ''s5'']
   \<and> fst (writePullRequests [apiPR 3 ''three'' ''s3'', apiPR 5 ''five'' ''s5''] repoA store_A) = Inr ()
   \<and> fetchCombinedRefStatus api_status_down (login (owner repoA)) (name repoA) ''s3'' = Inl ''timeout''
   \<and> fetchCombinedRefStatus api_status_down (login (owner repoA)) (name repoA) ''s5'' =
       Inr \<lparr>api_state = ''success'', api_total_count = 2\<rparr>
   \<and> (\<exists>msg. updatePullRequests repoA api_status_down store_A =
         (Inl (RemoteFetchFailure msg),
          snd (writePullRequests [apiPR 3 ''three'' ''s3'', apiPR 5 ''five'' ''s5''] repoA store_A)))
   \<and> pullRequestStatus (db (snd (updatePullRequests repoA api_status_down store_A))) =
       pullRequestStatus (db store_A)
   \<and> map row_id (pullRequests (db (snd (updatePullRequests repoA api_status_down store_A)))) =
       [Some 3, Some 4]
   \<and> (\<exists>batch. pullRequestStatus (db (snd (updatePullRequests repoA api_ok store_A))) =
         pullRequestStatus (db store_A) @ batch
         \<and> map pullRequestId batch = [Some 4, Some 3])"
proof -
  let ?fetched = "[apiPR 3 ''three'' ''s3'', apiPR 5 ''five'' ''s5'']"
  let ?st1 = "snd (writePullRequests ?fetched repoA store_A)"
  let ?prs = "map (buildPR ?st1)
    (reverse_sortBy_number (where_base_repoId_equals (dbID repoA) (pullRequests (db ?st1))))"
  have h: "\<not> falsy (dbID repoA)"
    by (simp add: falsy_def repoA_def)
  have down: "fetchPullRequests api_status_down (login (owner repoA)) (name repoA) ''open'' = Inr ?fetched"
    by (simp add: api_status_down_def)
  have ok: "fetchPullRequests api_ok (login (owner repoA)) (name repoA) ''open'' = Inr ?fetched"
    by (simp add: api_ok_def)
  have w: "writePullRequests ?fetched repoA store_A = (Inr (), ?st1)"
    using h by (simp add: writePullRequests_def split: prod.split)
  have v: "getPullRequests repoA ?st1 = Inr ?prs"
    using h by (rule getPullRequests_Inr)
  have s3: "fetchCombinedRefStatus api_status_down (login (owner repoA)) (name repoA) ''s3'' = Inl ''timeout''"
    and s5: "fetchCombinedRefStatus api_status_down (login (owner repoA)) (name repoA) ''s5'' =
       Inr \<lparr>api_state = ''success'', api_total_count = 2\<rparr>"
    by (simp_all add: api_status_down_def)
  have ids: "map pr_id ?prs = [Some 4, Some 3]"
    and shas: "map (\<lambda>p. ref_sha (head p)) ?prs = [''s5'', ''s3'']"
    and rows: "map row_id (pullRequests (db ?st1)) = [Some 3, Some 4]"
    by code_simp+
  have "''s3'' \<in> set (map (\<lambda>p. ref_sha (head p)) ?prs)"
    unfolding shas by simp
  then have "''s3'' \<in> (\<lambda>p. ref_sha (head p)) ` set ?prs"
    by (simp only: set_map)
  then obtain p where p: "p \<in> set ?prs" "''s3'' = ref_sha (head p)"
    by (rule imageE)
  from s3 have "fetchCombinedRefStatus api_status_down (login (owner repoA)) (name repoA)
      (ref_sha (head p)) = Inl ''timeout''"
    unfolding p(2) .
  with p(1) have fails: "\<exists>p \<in> set ?prs. \<exists>msg. fetchCombinedRefStatus api_status_down
      (login (owner repoA)) (name repoA) (ref_sha (head p)) = Inl msg"
    by blast
  have succeeds: "\<not> (\<exists>p \<in> set ?prs. \<exists>msg. fetchCombinedRefStatus api_ok
      (login (owner repoA)) (name repoA) (ref_sha (head p)) = Inl msg)"
    by (simp add: api_ok_def)
  from updatePullRequests_status_batch [OF down w v] fails
  have failure: "(\<exists>msg. updatePullRequests repoA api_status_down store_A = (Inl (RemoteFetchFailure msg), ?st1))
      \<and> pullRequestStatus (db ?st1) = pullRequestStatus (db store_A)"
    by blast
  then have kept: "pullRequestStatus (db (snd (updatePullRequests repoA api_status_down store_A))) =
      pullRequestStatus (db store_A)"
    and committed: "map row_id (pullRequests (db (snd (updatePullRequests repoA api_status_down store_A)))) =
      [Some 3, Some 4]"
    using rows by auto
  from updatePullRequests_status_batch [OF ok w v] succeeds
  have "\<exists>batch. pullRequestStatus (db (snd (updatePullRequests repoA api_ok store_A))) =
         pullRequestStatus (db store_A) @ batch \<and> map pullRequestId batch = map pr_id ?prs"
    by blast
  then have success: "\<exists>batch. pullRequestStatus (db (snd (updatePullRequests repoA api_ok store_A))) =
         pullRequestStatus (db store_A) @ batch \<and> map pullRequestId batch = [Some 4, Some 3]"
    unfolding ids .
  from w have written: "fst (writePullRequests ?fetched repoA store_A) = Inr ()"
    by (rule arg_cong [where f = fst, THEN trans]) simp
  from down written s3 s5 failure kept committed success show ?thesis
    by blast
qed

subsection \<open>Refreshing twice\<close>

text \<open>
  Claim C7: two refreshes in succession against the same remote leave the same view, ids
  apart: after the second refresh \<open>getPullRequests\<close> returns the same sequence of
  (number, title) pairs as after the first, hence the same count and the same set of
  pairs; and when the first refresh returns a sequence, the second returns one too, with
  the same (number, title) pairs.
\<close>

theorem refresh_twice_same_logical_rows:
  "map_sum id (map (\<lambda>p. (number p, title p)))
     (getPullRequests repository
       (snd (updatePullRequests repository api (snd (updatePullRequests repository api st))))) =
   map_sum id (map (\<lambda>p. (number p, title p)))
     (getPullRequests repository (snd (updatePullRequests repository api st)))
   \<and> (\<forall>v1 v2.
        getPullRequests repository (snd (updatePullRequests repository api st)) = Inr v1
        \<and> getPullRequests repository
            (snd (updatePullRequests repository api (snd (updatePullRequests repository api st)))) = Inr v2
        \<longrightarrow> length v2 = length v1
          \<and> set (map (\<lambda>p. (number p, title p)) v2) = set (map (\<lambda>p. (number p, title p)) v1))
   \<and> (\<forall>r1. fst (updatePullRequests repository api st) = Inr r1 \<longrightarrow>
        (\<exists>r2. fst (updatePullRequests repository api (snd (updatePullRequests repository api st))) = Inr r2
           \<and> length r2 = length r1
           \<and> map (\<lambda>p. (number p, title p)) r2 = map (\<lambda>p. (number p, title p)) r1
           \<and> set (map (\<lambda>p. (number p, title p)) r2) = set (map (\<lambda>p. (number p, title p)) r1)))"
proof -
  let ?s1 = "snd (updatePullRequests repository api st)"
  let ?s2 = "snd (updatePullRequests repository api ?s1)"
  let ?g = "\<lambda>p. (number p, title p)"
  let ?listing = "\<lambda>s. reverse_sortBy_number
    (where_base_repoId_equals (dbID repository) (pullRequests (db s)))"
  have same: "map_sum id (map ?g) (getPullRequests repository ?s2) =
      map_sum id (map ?g) (getPullRequests repository ?s1)"
  proof (cases "falsy (dbID repository)")
    case True
    then show ?thesis
      by (simp add: getPullRequests_def)
  next
    case False
    have "map (\<lambda>r. (row_number r, row_title r)) (?listing ?s2) =
        map (\<lambda>r. (row_number r, row_title r)) (?listing ?s1)"
      by (rule map_through_unstamp [OF listing_same_rows [OF refresh_twice_rows]]) simp
    then show ?thesis
      by (simp add: getPullRequests_Inr [OF False] comp_def)
  qed
  have pairs: "length v2 = length v1 \<and> map ?g v2 = map ?g v1 \<and> set (map ?g v2) = set (map ?g v1)"
    if "getPullRequests repository ?s1 = Inr v1" "getPullRequests repository ?s2 = Inr v2" for v1 v2
  proof -
    from same that have eq: "map ?g v2 = map ?g v1"
      by simp
    from eq have "length (map ?g v2) = length (map ?g v1)"
      by (rule arg_cong)
    then have "length v2 = length v1"
      by simp
    moreover from eq have "set (map ?g v2) = set (map ?g v1)"
      by (rule arg_cong)
    ultimately show ?thesis
      using eq by blast
  qed
  have returned: "\<exists>r2. fst (updatePullRequests repository api ?s1) = Inr r2
      \<and> length r2 = length r1 \<and> map ?g r2 = map ?g r1 \<and> set (map ?g r2) = set (map ?g r1)"
    if r1: "fst (updatePullRequests repository api st) = Inr r1" for r1
  proof -
    from r1 obtain r2 where r2: "fst (updatePullRequests repository api ?s1) = Inr r2"
      using refresh_twice_succeeds by blast
    have "updatePullRequests repository api st = (Inr r1, ?s1)"
      using r1 by (simp add: prod_eq_iff)
    then have v1: "getPullRequests repository ?s1 = Inr r1"
      by (rule updatePullRequests_returns_view)
    have "updatePullRequests repository api ?s1 = (Inr r2, ?s2)"
      using r2 by (simp add: prod_eq_iff)
    then have v2: "getPullRequests repository ?s2 = Inr r2"
      by (rule updatePullRequests_returns_view)
    from pairs [OF v1 v2] r2 show ?thesis
      by blast
  qed
  from same pairs returned show ?thesis
    by blast
qed

theorem refresh_twice_same_logical_rows_witness:
  "(\<exists>r1. fst (updatePullRequests repoA api_ok store_B) = Inr r1
        \<and> map (\<lambda>p. (number p, title p)) r1 = [(5, ''five''), (3, ''three'')]
        \<and> map pr_id r1 = [Some 3, Some 2])
   \<and> (\<exists>r2. fst (updatePullRequests repoA api_ok (snd (updatePullRequests repoA api_ok store_B))) = Inr r2
        \<and> length r2 = 2
        \<and> map (\<lambda>p. (number p, title p)) r2 = [(5, ''five''), (3, ''three'')])"
proof -
  let ?r1 = "projr (fst (updatePullRequests repoA api_ok store_B))"
  have r1: "fst (updatePullRequests repoA api_ok store_B) = Inr ?r1"
    by code_simp
  have pairs: "map (\<lambda>p. (number p, title p)) ?r1 = [(5, ''five''), (3, ''three'')]"
    and ids: "map pr_id ?r1 = [Some 3, Some 2]"
    and len: "length ?r1 = 2"
    by code_simp+
  from refresh_twice_same_logical_rows [of repoA api_ok store_B] r1
  obtain r2 where "fst (updatePullRequests repoA api_ok (snd (updatePullRequests repoA api_ok store_B))) = Inr r2"
    and "length r2 = length ?r1"
    and "map (\<lambda>p. (number p, title p)) r2 = map (\<lambda>p. (number p, title p)) ?r1"
    by blast
  with r1 pairs ids len show ?thesis
    by (intro conjI exI [of _ ?r1] exI [of _ r2]) simp_all
qed

subsection \<open>What a successful refresh returns\<close>




end
